theory Spec2Isabelle
  imports Main "HOL-Library.Word"
begin

section \<open>MsczReader: a read-only accessor for score containers\<close>

text \<open>
  A shallow embedding of \<^verbatim>\<open>src/engraving/io/msczreader.cpp\<close>. The class
  \<^verbatim>\<open>MsczReader\<close> reads a score container that is stored either as a zip archive
  behind a \<^verbatim>\<open>QIODevice\<close> (mode \<^verbatim>\<open>Zip\<close>) or as a plain directory tree (mode
  \<^verbatim>\<open>Dir\<close>). Every member function becomes a function on an explicit state; a
  dereference of a null \<^verbatim>\<open>m_device\<close> is the error value of a sum type.
\<close>

subsection \<open>Strings and bytes\<close>

type_synonym QString = string
type_synonym QByteArray = "8 word list"

text \<open>\<^verbatim>\<open>QString::startsWith\<close> and \<^verbatim>\<open>QString::endsWith\<close>, case sensitive.\<close>

fun startsWith :: "QString \<Rightarrow> QString \<Rightarrow> bool" where
  "startsWith s [] = True"
| "startsWith [] (c # cs) = False"
| "startsWith (x # xs) (c # cs) = (x = c \<and> startsWith xs cs)"

definition endsWith :: "QString \<Rightarrow> QString \<Rightarrow> bool" where
  "endsWith s t = startsWith (rev s) (rev t)"

text \<open>\<^verbatim>\<open>QString::mid(n)\<close>: the string from position \<open>n\<close> on, empty when \<open>n\<close> is
  past the end.\<close>

definition mid :: "QString \<Rightarrow> nat \<Rightarrow> QString" where
  "mid s n = drop n s"

text \<open>\<^verbatim>\<open>QFileInfo(path).fileName()\<close>: what follows the last separator.\<close>

definition fileName :: "QString \<Rightarrow> QString" where
  "fileName p = rev (takeWhile (\<lambda>c. c \<noteq> CHR ''/'') (rev p))"

subsection \<open>The data of the class\<close>

datatype Mode = Zip | Dir

text \<open>\<^verbatim>\<open>MQZipReader::Status\<close>; the reader only tests it against \<^verbatim>\<open>NoError\<close>.\<close>

datatype Status = NoError | FileReadError | FileOpenError | FilePermissionsError | FileError

text \<open>\<^verbatim>\<open>MQZipReader::FileInfo\<close>, with the two fields the reader looks at.\<close>

record FileInfo =
  fi_filePath :: QString
  fi_isFile :: bool

text \<open>\<^verbatim>\<open>MsczReader::Meta\<close>.\<close>

record Meta =
  mscxFileName :: QString
  imageFilePaths :: "QString list"

text \<open>
  Modelled from the spec: \<^verbatim>\<open>Meta::isValid()\<close> is declared in \<^verbatim>\<open>msczreader.h\<close>,
  which is not among the sources. The spec's data model says of it: true once a
  primary-document path or at least one classified path has been recorded.
\<close>

definition Meta_isValid :: "Meta \<Rightarrow> bool" where
  "Meta_isValid m = (mscxFileName m \<noteq> [] \<or> imageFilePaths m \<noteq> [])"

text \<open>A default-constructed \<^verbatim>\<open>Meta\<close>: an empty name and no image paths.\<close>

definition Meta_empty :: Meta where
  "Meta_empty = \<lparr>mscxFileName = [], imageFilePaths = []\<rparr>"

text \<open>
  What the reader does to the outside, in order: the messages it logs (\<^verbatim>\<open>LOGE\<close>,
  \<^verbatim>\<open>LOGW\<close>) and the enumeration passes of \<^verbatim>\<open>meta()\<close> (one \<open>Enumerated\<close> per
  run of its \<^verbatim>\<open>fileList\<close> lambda, with the mode it ran in).
\<close>

datatype Event = LogError QString | LogWarning QString | Enumerated Mode

text \<open>
  The state: the members of \<^verbatim>\<open>MsczReader\<close> and, beside them, the part of the
  outside the reader changes. A \<^verbatim>\<open>QIODevice*\<close> is an optional device number
  (\<open>None\<close> is \<^verbatim>\<open>nullptr\<close>); \<^verbatim>\<open>m_reader\<close> is \<open>None\<close> while no \<^verbatim>\<open>MQZipReader\<close>
  exists and otherwise holds the device pointer the handle was constructed over.
\<close>

record State =
  m_filePath :: QString
  m_mode :: Mode
  m_device :: "nat option"
  m_selfDeviceOwner :: bool
  m_reader :: "nat option option"
  m_meta :: Meta
  openDevices :: "nat set"
  deletedDevices :: "nat list"
  events :: "Event list"

text \<open>
  Modelled from the spec: the zip reader \<^verbatim>\<open>MQZipReader\<close> (\<^verbatim>\<open>thirdparty/qzip\<close>) is
  not among the sources. The spec has it as the Archive Backend: given raw bytes, it
  enumerates entries (path, is-file) in its own order, extracts a named entry's bytes
  by exact path match, and surfaces an error status. An archive is what such a reader
  finds behind a device: its status and its entries with their bytes.
\<close>

record Archive =
  ar_status :: Status
  ar_entries :: "(FileInfo \<times> QByteArray) list"

text \<open>Modelled from the spec: \<^verbatim>\<open>MQZipReader::fileInfoList()\<close> enumerates the entries
  (path, is-file) in the backend's order.\<close>

definition MQZipReader_fileInfoList :: "Archive \<Rightarrow> FileInfo list" where
  "MQZipReader_fileInfoList a = map fst (ar_entries a)"

text \<open>Modelled from the spec: \<^verbatim>\<open>MQZipReader::fileData(name)\<close> extracts the bytes of
  the entry with exactly this path, the first one in the backend's order; a name that
  no entry has gives no bytes.\<close>

definition MQZipReader_fileData :: "Archive \<Rightarrow> QString \<Rightarrow> QByteArray" where
  "MQZipReader_fileData a name =
     (case find (\<lambda>e. fi_filePath (fst e) = name) (ar_entries a) of
        None \<Rightarrow> []
      | Some e \<Rightarrow> snd e)"

text \<open>Modelled from the spec: \<^verbatim>\<open>MQZipReader::status()\<close> is the error status the backend
  surfaces.\<close>

definition MQZipReader_status :: "Archive \<Rightarrow> Status" where
  "MQZipReader_status a = ar_status a"

text \<open>
  The world outside the reader: Qt's file system classes as black boxes, and the
  archive behind every device.
  \<^item> \<open>fs_absolutePath p\<close> is \<^verbatim>\<open>QFileInfo(p).absolutePath()\<close>;
  \<^item> \<open>fs_exists p\<close> is \<^verbatim>\<open>QFileInfo::exists(p)\<close>;
  \<^item> \<open>fs_iterate root\<close> lists what the \<^verbatim>\<open>QDirIterator\<close> of \<^verbatim>\<open>meta()\<close> yields for
    \<open>root\<close>, in its order;
  \<^item> \<open>fs_readAll p\<close> is \<open>None\<close> when \<^verbatim>\<open>QFile(p).open(ReadOnly)\<close> fails and the
    result of \<^verbatim>\<open>readAll()\<close> otherwise;
  \<^item> \<open>dev_canOpen d\<close> is the result of \<^verbatim>\<open>open(ReadOnly)\<close> on a closed device;
  \<^item> \<open>zip_archive d\<close> is the archive a zip reader over device \<open>d\<close> finds.
\<close>

record World =
  fs_absolutePath :: "QString \<Rightarrow> QString"
  fs_exists :: "QString \<Rightarrow> bool"
  fs_iterate :: "QString \<Rightarrow> QString list"
  fs_readAll :: "QString \<Rightarrow> QByteArray option"
  dev_canOpen :: "nat \<Rightarrow> bool"
  zip_archive :: "nat \<Rightarrow> Archive"

text \<open>The one hard failure of the code: a member call through a null device pointer.\<close>

datatype Crash = NullDevice

type_synonym 'a result = "Crash + ('a \<times> State)"

definition logError :: "QString \<Rightarrow> State \<Rightarrow> State" where
  "logError msg s = s\<lparr>events := events s @ [LogError msg]\<rparr>"

definition logWarning :: "QString \<Rightarrow> State \<Rightarrow> State" where
  "logWarning msg s = s\<lparr>events := events s @ [LogWarning msg]\<rparr>"

subsection \<open>Construction and destruction\<close>

text \<open>
  Modelled from the spec: the in-class initialiser of \<^verbatim>\<open>m_device\<close> is in
  \<^verbatim>\<open>msczreader.h\<close>, which is not among the sources. The spec's data model has the
  stream optional: present when the reader is opened by stream.
\<close>

definition initial_device :: "nat option" where
  "initial_device = None"

text \<open>
  Modelled from the spec: the in-class initialiser of \<^verbatim>\<open>m_selfDeviceOwner\<close> is in
  \<^verbatim>\<open>msczreader.h\<close>. The spec has the stream borrowed unless the reader is told that
  it owns it.
\<close>

definition initial_selfDeviceOwner :: bool where
  "initial_selfDeviceOwner = False"

text \<open>
  Modelled from the spec: the in-class initialiser of \<^verbatim>\<open>m_reader\<close> is in
  \<^verbatim>\<open>msczreader.h\<close>. The spec has the backend handle optional and lazily
  constructed: created on first need.
\<close>

definition initial_reader :: "nat option option" where
  "initial_reader = None"

text \<open>
  The two constructors. A member that a constructor does not name keeps its
  initialiser; \<^verbatim>\<open>m_filePath\<close> and \<^verbatim>\<open>m_meta\<close> are default-constructed (empty). In
  the part of the state that lies outside the reader, no device is open yet and none
  has been deleted.
\<close>

definition MsczReader_path :: "QString \<Rightarrow> Mode \<Rightarrow> State" where
  "MsczReader_path filePath mode =
     \<lparr>m_filePath = filePath, m_mode = mode, m_device = initial_device,
      m_selfDeviceOwner = initial_selfDeviceOwner,
      m_reader = initial_reader, m_meta = Meta_empty,
      openDevices = {}, deletedDevices = [], events = []\<rparr>"

definition MsczReader_device :: "nat option \<Rightarrow> State" where
  "MsczReader_device device =
     \<lparr>m_filePath = [], m_mode = Zip, m_device = device, m_selfDeviceOwner = False,
      m_reader = initial_reader, m_meta = Meta_empty,
      openDevices = {}, deletedDevices = [], events = []\<rparr>"

definition rootPath :: "World \<Rightarrow> State \<Rightarrow> QString" where
  "rootPath w s = (case m_mode s of
       Zip \<Rightarrow> ''/''
     | Dir \<Rightarrow> fs_absolutePath w (m_filePath s))"

definition filePath :: "State \<Rightarrow> QString" where
  "filePath s = m_filePath s"

definition mode :: "State \<Rightarrow> Mode" where
  "mode s = m_mode s"

definition "open" :: "World \<Rightarrow> State \<Rightarrow> bool result" where
  "open w s = (case m_mode s of
       Zip \<Rightarrow> (case m_device s of
           None \<Rightarrow> Inl NullDevice
         | Some d \<Rightarrow>
             if d \<notin> openDevices s then
               (if \<not> dev_canOpen w d
                then Inr (False, logError (''failed open file: '' @ filePath s) s)
                else Inr (True, s\<lparr>openDevices := insert d (openDevices s)\<rparr>))
             else Inr (True, s))
     | Dir \<Rightarrow>
         (let root = rootPath w s in
          if \<not> fs_exists w root
          then Inr (False, logError (''not exists path: '' @ root) s)
          else Inr (True, s)))"

text \<open>
  \<^verbatim>\<open>close()\<close>. In mode \<^verbatim>\<open>Zip\<close> it closes the zip reader, if there is one (which
  closes the device the handle was made over), and then \<^verbatim>\<open>m_device\<close>. A zip reader
  works through its device pointer, so every call on a handle that was made over
  \<^verbatim>\<open>nullptr\<close> is a null dereference, here and below.
\<close>

definition close :: "State \<Rightarrow> unit result" where
  "close s = (case m_mode s of
       Zip \<Rightarrow>
         (case m_reader s of
            Some None \<Rightarrow> Inl NullDevice
          | _ \<Rightarrow>
            (case m_device s of
               None \<Rightarrow> Inl NullDevice
             | Some d \<Rightarrow>
                 Inr ((), s\<lparr>openDevices :=
                   openDevices s - {d} - (case m_reader s of Some (Some h) \<Rightarrow> {h} | _ \<Rightarrow> {})\<rparr>)))
     | Dir \<Rightarrow> Inr ((), s))"

definition isOpened :: "World \<Rightarrow> State \<Rightarrow> Crash + bool" where
  "isOpened w s = (case m_mode s of
       Zip \<Rightarrow> (case m_device s of
           None \<Rightarrow> Inl NullDevice
         | Some d \<Rightarrow> Inr (d \<in> openDevices s))
     | Dir \<Rightarrow> Inr (fs_exists w (rootPath w s)))"

text \<open>The destructor: \<^verbatim>\<open>close()\<close>, delete the zip reader, delete an owned device.\<close>

definition destroy :: "State \<Rightarrow> unit result" where
  "destroy s = (case close s of
       Inl e \<Rightarrow> Inl e
     | Inr (u, s1) \<Rightarrow>
         (let s2 = s1\<lparr>m_reader := None\<rparr> in
          if m_selfDeviceOwner s2
          then (case m_device s2 of
                  None \<Rightarrow> Inr ((), s2)
                | Some d \<Rightarrow> Inr ((), s2\<lparr>deletedDevices := deletedDevices s2 @ [d]\<rparr>))
          else Inr ((), s2)))"

subsection \<open>Rebinding\<close>

definition setDevice :: "nat option \<Rightarrow> State \<Rightarrow> State" where
  "setDevice device s =
     (let s1 = s\<lparr>m_reader := None\<rparr>;
          s2 = (case m_device s1 of
                  Some d \<Rightarrow> if m_selfDeviceOwner s1
                            then s1\<lparr>deletedDevices := deletedDevices s1 @ [d]\<rparr> else s1
                | None \<Rightarrow> s1);
          s3 = s2\<lparr>m_device := device, m_selfDeviceOwner := False\<rparr>
      in if m_mode s3 = Dir
         then (logWarning ''The mode changed to ZIP'' s3)\<lparr>m_mode := Zip\<rparr>
         else s3)"

definition setFilePath :: "QString \<Rightarrow> State \<Rightarrow> State" where
  "setFilePath p s = s\<lparr>m_filePath := p, m_reader := None\<rparr>"

definition setMode :: "Mode \<Rightarrow> State \<Rightarrow> State" where
  "setMode m s = s\<lparr>m_mode := m\<rparr>"

subsection \<open>The lazily made zip reader and the metadata\<close>

text \<open>\<^verbatim>\<open>reader()\<close>: makes the \<^verbatim>\<open>MQZipReader\<close> over \<^verbatim>\<open>m_device\<close> on first use.
  It returns the device pointer of the handle.\<close>

definition reader :: "State \<Rightarrow> nat option \<times> State" where
  "reader s = (case m_reader s of
       None \<Rightarrow> (m_device s, s\<lparr>m_reader := Some (m_device s)\<rparr>)
     | Some h \<Rightarrow> (h, s))"

text \<open>
  The lambda \<^verbatim>\<open>fileList\<close> of \<^verbatim>\<open>meta()\<close>: one enumeration pass. In mode
  \<^verbatim>\<open>Zip\<close> it keeps the paths of the entries flagged as files; in mode \<^verbatim>\<open>Dir\<close> it
  cuts the first \<^verbatim>\<open>root.length()\<close> characters off every path the iterator yields.
\<close>

definition fileList :: "World \<Rightarrow> State \<Rightarrow> QString list result" where
  "fileList w s = (case m_mode s of
       Zip \<Rightarrow>
         (case reader s of
            (None, s1) \<Rightarrow> Inl NullDevice
          | (Some d, s1) \<Rightarrow>
              (let fileInfoList = MQZipReader_fileInfoList (zip_archive w d);
                   s2 = (if MQZipReader_status (zip_archive w d) \<noteq> NoError
                         then logError ''failed read meta, status: '' s1 else s1)
               in Inr (map fi_filePath (filter fi_isFile fileInfoList),
                       s2\<lparr>events := events s2 @ [Enumerated Zip]\<rparr>)))
     | Dir \<Rightarrow>
         (let root = rootPath w s
          in Inr (map (\<lambda>path. mid path (length root)) (fs_iterate w root),
                  s\<lparr>events := events s @ [Enumerated Dir]\<rparr>)))"

text \<open>The body of the classification loop of \<^verbatim>\<open>meta()\<close>, and the loop.\<close>

definition classify :: "Meta \<Rightarrow> QString \<Rightarrow> Meta" where
  "classify m path =
     (if endsWith path ''.mscx'' then m\<lparr>mscxFileName := path\<rparr>
      else if startsWith path ''Pictures/''
           then m\<lparr>imageFilePaths := imageFilePaths m @ [path]\<rparr>
      else m)"

definition classifyAll :: "Meta \<Rightarrow> QString list \<Rightarrow> Meta" where
  "classifyAll m files = foldl classify m files"

text \<open>\<^verbatim>\<open>meta()\<close>: the cached snapshot when it is valid, and otherwise one
  enumeration pass classified into \<^verbatim>\<open>m_meta\<close> (which is \<^verbatim>\<open>mutable\<close>).\<close>

definition meta :: "World \<Rightarrow> State \<Rightarrow> Meta result" where
  "meta w s =
     (if Meta_isValid (m_meta s) then Inr (m_meta s, s)
      else (case fileList w s of
              Inl e \<Rightarrow> Inl e
            | Inr (files, s1) \<Rightarrow>
                (let m = classifyAll (m_meta s1) files
                 in Inr (m, s1\<lparr>m_meta := m\<rparr>))))"

subsection \<open>Reading\<close>

definition fileData :: "World \<Rightarrow> QString \<Rightarrow> State \<Rightarrow> QByteArray result" where
  "fileData w name s = (case m_mode s of
       Zip \<Rightarrow>
         (case reader s of
            (None, s1) \<Rightarrow> Inl NullDevice
          | (Some d, s1) \<Rightarrow>
              (let data = MQZipReader_fileData (zip_archive w d) name
               in if MQZipReader_status (zip_archive w d) \<noteq> NoError
                  then Inr ([], logError ''failed read data, status: '' s1)
                  else Inr (data, s1)))
     | Dir \<Rightarrow>
         (let path = rootPath w s @ ''/'' @ name
          in case fs_readAll w path of
               None \<Rightarrow> Inr ([], logError (''failed open file: '' @ path) s)
             | Some data \<Rightarrow> Inr (data, s)))"

definition readScoreFile :: "World \<Rightarrow> State \<Rightarrow> QByteArray result" where
  "readScoreFile w s = (case meta w s of
       Inl e \<Rightarrow> Inl e
     | Inr (m, s1) \<Rightarrow> fileData w (mscxFileName m) s1)"

definition readThumbnailFile :: "World \<Rightarrow> State \<Rightarrow> QByteArray result" where
  "readThumbnailFile w s = fileData w ''Thumbnails/thumbnail.png'' s"

definition readImageFile :: "World \<Rightarrow> QString \<Rightarrow> State \<Rightarrow> QByteArray result" where
  "readImageFile w name s = fileData w (''Pictures/'' @ name) s"

definition imageFileNames :: "World \<Rightarrow> State \<Rightarrow> QString list result" where
  "imageFileNames w s = (case meta w s of
       Inl e \<Rightarrow> Inl e
     | Inr (m, s1) \<Rightarrow> Inr (map fileName (imageFilePaths m), s1))"

definition readAudioFile :: "World \<Rightarrow> State \<Rightarrow> QByteArray result" where
  "readAudioFile w s = fileData w ''audio.ogg'' s"

definition readAudioSettingsJsonFile :: "World \<Rightarrow> State \<Rightarrow> QByteArray result" where
  "readAudioSettingsJsonFile w s = fileData w ''audiosettings.json'' s"

subsection \<open>Sequences of calls\<close>

text \<open>The public member functions as operations, and a run of them on one reader: a
  call's return value is dropped, and a crash ends the run.\<close>

datatype Op =
    Open | Close | IsOpened | RootPath | FilePath | GetMode
  | SetDevice "nat option" | SetFilePath QString | SetMode Mode
  | GetMeta | FileData QString
  | ReadScoreFile | ReadThumbnailFile | ReadImageFile QString | ImageFileNames
  | ReadAudioFile | ReadAudioSettingsJsonFile

definition dropValue :: "'a result \<Rightarrow> Crash + State" where
  "dropValue r = (case r of Inl e \<Rightarrow> Inl e | Inr (v, s) \<Rightarrow> Inr s)"

fun step :: "World \<Rightarrow> Op \<Rightarrow> State \<Rightarrow> Crash + State" where
  "step w Open s = dropValue (open w s)"
| "step w Close s = dropValue (close s)"
| "step w IsOpened s = (case isOpened w s of Inl e \<Rightarrow> Inl e | Inr b \<Rightarrow> Inr s)"
| "step w RootPath s = Inr s"
| "step w FilePath s = Inr s"
| "step w GetMode s = Inr s"
| "step w (SetDevice d) s = Inr (setDevice d s)"
| "step w (SetFilePath p) s = Inr (setFilePath p s)"
| "step w (SetMode m) s = Inr (setMode m s)"
| "step w GetMeta s = dropValue (meta w s)"
| "step w (FileData name) s = dropValue (fileData w name s)"
| "step w ReadScoreFile s = dropValue (readScoreFile w s)"
| "step w ReadThumbnailFile s = dropValue (readThumbnailFile w s)"
| "step w (ReadImageFile name) s = dropValue (readImageFile w name s)"
| "step w ImageFileNames s = dropValue (imageFileNames w s)"
| "step w ReadAudioFile s = dropValue (readAudioFile w s)"
| "step w ReadAudioSettingsJsonFile s = dropValue (readAudioSettingsJsonFile w s)"

fun run :: "World \<Rightarrow> Op list \<Rightarrow> State \<Rightarrow> Crash + State" where
  "run w [] s = Inr s"
| "run w (x # xs) s = (case step w x s of Inl e \<Rightarrow> Inl e | Inr s1 \<Rightarrow> run w xs s1)"

subsection \<open>A container and its two physical forms\<close>

text \<open>
  A container's content: relative paths (forward slashes) with their bytes, in the
  order the backend enumerates them.
\<close>

type_synonym Content = "(QString \<times> QByteArray) list"

definition isMscx :: "QString \<Rightarrow> bool" where
  "isMscx path = endsWith path ''.mscx''"

text \<open>The archive form: every entry is a file, and the archive reads without error.\<close>

definition archiveOf :: "Content \<Rightarrow> Archive" where
  "archiveOf content =
     \<lparr>ar_status = NoError,
      ar_entries = map (\<lambda>(path, data). (\<lparr>fi_filePath = path, fi_isFile = True\<rparr>, data)) content\<rparr>"

text \<open>
  The directory form: the files below a directory, in the order a traversal meets
  them. Of each file the tree records
  \<^item> \<open>df_path\<close>, its path relative to the directory (forward slashes);
  \<^item> \<open>df_data\<close>, the bytes that reading it gives (for a symbolic link, those of its
    target);
  \<^item> \<open>df_symLink\<close>: the file is a symbolic link, or a directory between the root
    and the file is one;
  \<^item> \<open>df_readable\<close>: the file, and every directory between the root and the file,
    can be read.
\<close>

record DirFile =
  df_path :: QString
  df_data :: QByteArray
  df_symLink :: bool
  df_readable :: bool

type_synonym Tree = "DirFile list"

text \<open>
  A path is hidden when one of its segments starts with a dot: a hidden file, or a file
  below a hidden directory.
\<close>

fun hiddenFrom :: "bool \<Rightarrow> QString \<Rightarrow> bool" where
  "hiddenFrom atStart [] = False"
| "hiddenFrom atStart (c # cs) =
     ((atStart \<and> c = CHR ''.'') \<or> hiddenFrom (c = CHR ''/'') cs)"

definition hidden :: "QString \<Rightarrow> bool" where
  "hidden path = hiddenFrom True path"

text \<open>
  What the \<^verbatim>\<open>QDirIterator\<close> of \<^verbatim>\<open>meta()\<close> lists. Its filter is
  \<^verbatim>\<open>QDir::NoDotAndDotDot | QDir::NoSymLinks | QDir::Readable | QDir::Files\<close>, and it
  descends into subdirectories without following links: it lists the files that are
  not hidden (\<^verbatim>\<open>QDir::Hidden\<close> is not asked for, and a hidden directory is not entered),
  that are not symbolic links and not reached through one, and that can be read.
\<close>

definition listed :: "DirFile \<Rightarrow> bool" where
  "listed f = (\<not> hidden (df_path f) \<and> \<not> df_symLink f \<and> df_readable f)"

text \<open>
  The path the iterator yields for the file at the relative path \<open>rel\<close> below \<open>root\<close>:
  one separator between the two, and none added when \<open>root\<close> already ends with one
  (the file system's root directory \<^verbatim>\<open>/\<close>).
\<close>

definition dirJoin :: "QString \<Rightarrow> QString \<Rightarrow> QString" where
  "dirJoin root rel = (if endsWith root ''/'' then root @ rel else root @ ''/'' @ rel)"

text \<open>
  The segments of a path: what stands between its separators. Repeated separators
  count as one. The segments \<^verbatim>\<open>.\<close> and \<^verbatim>\<open>..\<close> are not interpreted.
\<close>

fun segmentsFrom :: "QString \<Rightarrow> QString \<Rightarrow> QString list" where
  "segmentsFrom cur [] = (if cur = [] then [] else [cur])"
| "segmentsFrom cur (c # cs) =
     (if c = CHR ''/'' then (if cur = [] then [] else [cur]) @ segmentsFrom [] cs
      else segmentsFrom (cur @ [c]) cs)"

definition segments :: "QString \<Rightarrow> QString list" where
  "segments path = segmentsFrom [] path"

text \<open>
  \<^verbatim>\<open>QFile(path).open(ReadOnly)\<close> and \<^verbatim>\<open>readAll()\<close> for a path below the root of a tree,
  \<open>name\<close> being what follows the root and its separator. The file opened is the one
  with the same segments; a link is followed. Nothing opens when \<open>name\<close> is empty or
  ends with a separator (it names a directory), when the tree has no such file, or when
  the file cannot be read.
\<close>

definition openUnder :: "Tree \<Rightarrow> QString \<Rightarrow> QByteArray option" where
  "openUnder tree name =
     (if name = [] \<or> endsWith name ''/'' then None
      else (case find (\<lambda>f. segments (df_path f) = segments name) tree of
              None \<Rightarrow> None
            | Some f \<Rightarrow> if df_readable f then Some (df_data f) else None))"

text \<open>
  The world \<open>w\<close> with the directory \<open>root\<close> holding the tree: \<open>root\<close> exists, the
  iterator over \<open>root\<close> yields the listed files of the tree, and a path below \<open>root\<close>
  opens as the tree says. Everything else, \<^verbatim>\<open>absolutePath()\<close> included, is as in
  \<open>w\<close>.
\<close>

definition withDirectory :: "World \<Rightarrow> QString \<Rightarrow> Tree \<Rightarrow> World" where
  "withDirectory w root tree =
     w\<lparr>fs_exists := (fs_exists w)(root := True),
       fs_iterate := (fs_iterate w)
          (root := map (\<lambda>f. dirJoin root (df_path f)) (filter listed tree)),
       fs_readAll := (\<lambda>path.
          if startsWith path (dirJoin root [])
          then openUnder tree (drop (length (dirJoin root [])) path)
          else fs_readAll w path)\<rparr>"

subsection \<open>Worlds for examples\<close>

text \<open>
  \<^verbatim>\<open>QFileInfo(path).absolutePath()\<close> for an absolute path without repeated separators
  and without the segments \<^verbatim>\<open>.\<close> and \<^verbatim>\<open>..\<close>: what stands before the last separator,
  and \<^verbatim>\<open>/\<close> when nothing does.
\<close>

definition parentDir :: "QString \<Rightarrow> QString" where
  "parentDir path =
     (let d = rev (dropWhile (\<lambda>c. c = CHR ''/'') (dropWhile (\<lambda>c. c \<noteq> CHR ''/'') (rev path)))
      in if d = [] then ''/'' else d)"

text \<open>A world in which no directory exists or lists anything, no file opens, every
  device opens, and the archive behind every device is empty.\<close>

definition emptyWorld :: World where
  "emptyWorld =
     \<lparr>fs_absolutePath = parentDir,
      fs_exists = (\<lambda>p. False),
      fs_iterate = (\<lambda>r. []),
      fs_readAll = (\<lambda>p. None),
      dev_canOpen = (\<lambda>d. True),
      zip_archive = (\<lambda>d. archiveOf [])\<rparr>"

text \<open>The directory form of a content: every file is a plain file that can be read.\<close>

definition treeOf :: "Content \<Rightarrow> Tree" where
  "treeOf content =
     map (\<lambda>(path, data). \<lparr>df_path = path, df_data = data, df_symLink = False, df_readable = True\<rparr>)
       content"

text \<open>One content in both forms: as the tree of the directory \<open>root\<close>, and as the
  archive behind every device.\<close>

definition containerWorld :: "QString \<Rightarrow> Content \<Rightarrow> World" where
  "containerWorld root content =
     (withDirectory emptyWorld root (treeOf content))\<lparr>zip_archive := (\<lambda>d. archiveOf content)\<rparr>"

text \<open>The value of a call, without the state; \<open>None\<close> for a crash.\<close>

definition valueOf :: "'a result \<Rightarrow> 'a option" where
  "valueOf r = (case r of Inl e \<Rightarrow> None | Inr (v, s) \<Rightarrow> Some v)"

text \<open>The zip reader, when there is one, was made over the current device: every
  member function keeps this.\<close>

definition handleBound :: "State \<Rightarrow> bool" where
  "handleBound s = (case m_reader s of None \<Rightarrow> True | Some h \<Rightarrow> h = m_device s)"

text \<open>A path is absent from the storage of a reader: in mode \<^verbatim>\<open>Zip\<close> no entry of
  the archive has it, in mode \<^verbatim>\<open>Dir\<close> no file opens under it.\<close>

definition absent :: "World \<Rightarrow> State \<Rightarrow> QString \<Rightarrow> bool" where
  "absent w s name = (case m_mode s of
       Zip \<Rightarrow> (case m_device s of
           None \<Rightarrow> False
         | Some d \<Rightarrow> name \<notin> set (map (\<lambda>e. fi_filePath (fst e)) (ar_entries (zip_archive w d))))
     | Dir \<Rightarrow> fs_readAll w (rootPath w s @ ''/'' @ name) = None)"

text \<open>The number of enumeration passes a state has seen.\<close>

definition scans :: "State \<Rightarrow> nat" where
  "scans s = length (filter (\<lambda>e. case e of Enumerated m \<Rightarrow> True | _ \<Rightarrow> False) (events s))"

text \<open>The snapshot of a reader that is in mode \<^verbatim>\<open>Dir\<close> holds no image path.\<close>

definition noImagesInDir :: "State \<Rightarrow> bool" where
  "noImagesInDir s = (m_mode s = Zip \<or> imageFilePaths (m_meta s) = [])"

section \<open>Properties\<close>

lemmas ctor_init = initial_device_def initial_selfDeviceOwner_def initial_reader_def

subsection \<open>Strings and paths\<close>




lemma isMscx_nonempty: "isMscx p \<Longrightarrow> p \<noteq> []"
  by (auto simp: isMscx_def endsWith_def)



lemma mid_dirJoin:
  "mid (dirJoin root rel) (length root) = (if endsWith root ''/'' then rel else CHR ''/'' # rel)"
  by (simp add: mid_def dirJoin_def)





subsection \<open>The classification loop\<close>

lemma classifyAll_snoc: "classifyAll m (files @ [f]) = classify (classifyAll m files) f"
  by (simp add: classifyAll_def)

lemma classifyAll_Nil: "classifyAll m [] = m"
  by (simp add: classifyAll_def)

lemma classify_isMscx:
  "classify m p =
     (if isMscx p then m\<lparr>mscxFileName := p\<rparr>
      else if startsWith p ''Pictures/'' then m\<lparr>imageFilePaths := imageFilePaths m @ [p]\<rparr>
      else m)"
  by (simp add: classify_def isMscx_def)

lemma mscx_classifyAll:
  "mscxFileName (classifyAll m files) =
     (if filter isMscx files = [] then mscxFileName m else last (filter isMscx files))"
  by (induction files rule: rev_induct)
     (simp_all add: classifyAll_Nil classifyAll_snoc classify_isMscx)

lemma images_classifyAll:
  "imageFilePaths (classifyAll m files) =
     imageFilePaths m @ filter (\<lambda>p. \<not> isMscx p \<and> startsWith p ''Pictures/'') files"
  by (induction files rule: rev_induct)
     (simp_all add: classifyAll_Nil classifyAll_snoc classify_isMscx)

lemma classifyAll_invalid:
  assumes "\<not> Meta_isValid (classifyAll m files)"
  shows "classifyAll m files = m"
proof -
  have mscx: "filter isMscx files = []"
  proof (rule ccontr)
    assume ne: "filter isMscx files \<noteq> []"
    then have "last (filter isMscx files) \<in> set (filter isMscx files)" by (rule last_in_set)
    then have "last (filter isMscx files) \<noteq> []" by (auto dest: isMscx_nonempty)
    with ne assms show False by (simp add: Meta_isValid_def mscx_classifyAll)
  qed
  have img: "filter (\<lambda>p. \<not> isMscx p \<and> startsWith p ''Pictures/'') files = []"
    using assms by (simp add: Meta_isValid_def images_classifyAll)
  have "mscxFileName (classifyAll m files) = mscxFileName m"
    using mscx by (simp add: mscx_classifyAll)
  moreover have "imageFilePaths (classifyAll m files) = imageFilePaths m"
    using img by (simp add: images_classifyAll)
  moreover have "Meta.more (classifyAll m files) = Meta.more m"
    by (induction files rule: rev_induct)
       (simp_all add: classifyAll_Nil classifyAll_snoc classify_isMscx)
  ultimately show ?thesis by (simp add: Meta.equality)
qed

subsection \<open>What a call changes and what it keeps\<close>

lemma meta_scan:
  assumes "\<not> Meta_isValid (m_meta s)" and "fileList w s = Inr (files, s1)"
  shows "meta w s = Inr (classifyAll (m_meta s) files,
                         s1\<lparr>m_meta := classifyAll (m_meta s) files\<rparr>)"
proof -
  have "m_meta s1 = m_meta s"
    using assms(2)
    by (auto simp: fileList_def reader_def logError_def Let_def
             split: Mode.splits option.splits prod.splits if_splits)
  with assms show ?thesis by (simp add: meta_def Let_def)
qed

lemma meta_cached: "Meta_isValid (m_meta s) \<Longrightarrow> meta w s = Inr (m_meta s, s)"
  by (simp add: meta_def)

lemma log_fields:
  "m_meta (logError msg s) = m_meta s" "m_mode (logError msg s) = m_mode s"
  "m_device (logError msg s) = m_device s" "m_reader (logError msg s) = m_reader s"
  "m_filePath (logError msg s) = m_filePath s"
  "m_selfDeviceOwner (logError msg s) = m_selfDeviceOwner s"
  "deletedDevices (logError msg s) = deletedDevices s"
  "openDevices (logError msg s) = openDevices s"
  by (simp_all add: logError_def)

lemma scans_simps:
  "scans (s\<lparr>events := events s @ [Enumerated md]\<rparr>) = Suc (scans s)"
  "scans (logError msg s) = scans s"
  "scans (logWarning msg s) = scans s"
  "scans (s\<lparr>m_meta := m\<rparr>) = scans s"
  "scans (s\<lparr>m_reader := r\<rparr>) = scans s"
  "scans (s\<lparr>openDevices := od\<rparr>) = scans s"
  by (simp_all add: scans_def logError_def logWarning_def)

lemma setDevice_fields:
  "m_selfDeviceOwner (setDevice device s) = False"
  "m_device (setDevice device s) = device"
  "m_reader (setDevice device s) = None"
  "m_mode (setDevice device s) = Zip"
  "m_meta (setDevice device s) = m_meta s"
  "m_filePath (setDevice device s) = m_filePath s"
  "openDevices (setDevice device s) = openDevices s"
  by (cases "m_mode s"; cases "m_device s"; simp add: setDevice_def logWarning_def Let_def)+

lemma fileList_frame:
  assumes "fileList w s = Inr (files, s1)"
  shows "m_meta s1 = m_meta s \<and> m_mode s1 = m_mode s \<and> m_device s1 = m_device s
       \<and> m_filePath s1 = m_filePath s \<and> m_selfDeviceOwner s1 = m_selfDeviceOwner s
       \<and> deletedDevices s1 = deletedDevices s \<and> openDevices s1 = openDevices s"
  using assms
  by (auto simp: fileList_def reader_def logError_def Let_def
           split: Mode.splits option.splits prod.splits if_splits)

lemma fileList_handle:
  assumes "fileList w s = Inr (files, s1)" and "handleBound s"
  shows "handleBound s1"
  using assms
  by (auto simp: fileList_def reader_def logError_def Let_def handleBound_def
           split: Mode.splits option.splits prod.splits if_splits)

lemma fileList_again:
  assumes "fileList w s = Inr (files, s1)"
  shows "\<exists>s2. fileList w (s1\<lparr>m_meta := m\<rparr>) = Inr (files, s2) \<and> m_meta s2 = m
            \<and> scans s2 = Suc (scans s1)"
proof (cases "m_mode s")
  case Zip
  with assms show ?thesis
    by (auto simp: fileList_def reader_def Let_def scans_def logError_def
        split: option.splits if_splits)
next
  case Dir
  with assms show ?thesis
    by (auto simp: fileList_def Let_def scans_def rootPath_def)
qed

lemma fileData_frame:
  assumes "fileData w name s = Inr (v, s')"
  shows "m_meta s' = m_meta s \<and> m_mode s' = m_mode s \<and> scans s' = scans s"
proof (cases "m_mode s")
  case Zip
  with assms show ?thesis
    by (auto simp: fileData_def reader_def Let_def scans_simps log_fields
        split: option.splits if_splits)
next
  case Dir
  with assms show ?thesis
    by (auto simp: fileData_def Let_def scans_simps log_fields split: option.splits)
qed

lemma fileData_only_logs:
  assumes "fileData w name s = Inr (v, s')"
  shows "s' = s\<lparr>m_reader := m_reader s', events := events s'\<rparr>"
proof (cases "m_mode s")
  case Zip
  with assms show ?thesis
    by (auto simp: fileData_def reader_def logError_def Let_def split: option.splits if_splits)
next
  case Dir
  with assms show ?thesis
    by (auto simp: fileData_def logError_def Let_def split: option.splits)
qed

lemma meta_frame:
  assumes "meta w s = Inr (m, s')"
  shows "m_mode s' = m_mode s \<and> m_meta s' = m"
proof (cases "Meta_isValid (m_meta s)")
  case True
  with assms show ?thesis by (auto simp: meta_cached)
next
  case False
  with assms obtain files s1 where fl: "fileList w s = Inr (files, s1)"
    by (auto simp: meta_def split: sum.splits)
  from assms meta_scan [OF False fl] fileList_frame [OF fl] show ?thesis by auto
qed

lemma open_frame:
  "open w s = Inr (v, s') \<Longrightarrow> m_meta s' = m_meta s \<and> m_mode s' = m_mode s \<and> scans s' = scans s"
  by (cases "m_mode s")
     (auto simp: open_def Let_def scans_simps log_fields split: option.splits if_splits)

lemma close_frame:
  "close s = Inr (v, s') \<Longrightarrow> m_meta s' = m_meta s \<and> m_mode s' = m_mode s \<and> scans s' = scans s"
  by (cases "m_mode s")
     (auto simp: close_def scans_simps split: option.splits)

lemma step_mode:
  assumes "step w x s = Inr s'"
  shows "m_mode s' = (case x of SetMode m \<Rightarrow> m | SetDevice d \<Rightarrow> Zip | _ \<Rightarrow> m_mode s)"
proof (cases x)
  case Open
  with assms show ?thesis
    by (auto simp: dropValue_def split: sum.splits dest: open_frame)
next
  case Close
  with assms show ?thesis
    by (auto simp: dropValue_def split: sum.splits dest: close_frame)
next
  case GetMeta
  with assms show ?thesis
    by (auto simp: dropValue_def split: sum.splits dest: meta_frame)
next
  case ReadScoreFile
  with assms show ?thesis
    by (auto simp: dropValue_def readScoreFile_def split: sum.splits
        dest!: meta_frame fileData_frame)
next
  case ImageFileNames
  with assms show ?thesis
    by (auto simp: dropValue_def imageFileNames_def split: sum.splits dest!: meta_frame)
qed (use assms in \<open>auto simp: dropValue_def setDevice_fields setFilePath_def setMode_def
       readThumbnailFile_def readImageFile_def readAudioFile_def readAudioSettingsJsonFile_def
       split: sum.splits dest!: fileData_frame\<close>)

lemma step_valid:
  assumes "Meta_isValid (m_meta s)" and "step w x s = Inr s'"
  shows "m_meta s' = m_meta s \<and> scans s' = scans s"
proof (cases x)
  case Open
  with assms(2) show ?thesis
    by (auto simp: dropValue_def split: sum.splits dest: open_frame)
next
  case Close
  with assms(2) show ?thesis
    by (auto simp: dropValue_def split: sum.splits dest: close_frame)
next
  case (SetDevice d)
  with assms(2) show ?thesis
    by (cases "m_mode s"; cases "m_device s")
       (auto simp: setDevice_def Let_def scans_def logWarning_def)
next
  case GetMeta
  with assms show ?thesis
    by (auto simp: dropValue_def meta_cached)
next
  case ReadScoreFile
  with assms show ?thesis
    by (auto simp: dropValue_def readScoreFile_def meta_cached split: sum.splits
        dest!: fileData_frame)
next
  case ImageFileNames
  with assms show ?thesis
    by (auto simp: dropValue_def imageFileNames_def meta_cached)
qed (use assms(2) in \<open>auto simp: dropValue_def setFilePath_def setMode_def scans_def
       readThumbnailFile_def readImageFile_def readAudioFile_def readAudioSettingsJsonFile_def
       split: sum.splits dest!: fileData_frame\<close>)

lemma run_valid:
  "Meta_isValid (m_meta s) \<Longrightarrow> run w ops s = Inr s' \<Longrightarrow> m_meta s' = m_meta s \<and> scans s' = scans s"
proof (induction ops arbitrary: s)
  case Nil
  then show ?case by simp
next
  case (Cons x xs)
  from Cons.prems(2) obtain s1 where st: "step w x s = Inr s1" and rn: "run w xs s1 = Inr s'"
    by (auto split: sum.splits)
  from step_valid [OF Cons.prems(1) st] Cons.IH [OF _ rn] Cons.prems(1) show ?case by simp
qed

subsection \<open>The zip reader stays bound to the device\<close>

lemma reader_bound:
  "handleBound s \<Longrightarrow> reader s = (m_device s, s\<lparr>m_reader := Some (m_device s)\<rparr>)"
  by (auto simp: handleBound_def reader_def split: option.splits)

lemma handleBound_constructed:
  "handleBound (MsczReader_path fp md)" "handleBound (MsczReader_device device)"
  by (simp_all add: handleBound_def MsczReader_path_def MsczReader_device_def ctor_init)

lemma handleBound_fileData:
  assumes "handleBound s" and "fileData w name s = Inr (v, s')"
  shows "handleBound s'"
proof (cases "m_mode s")
  case Zip
  with assms show ?thesis
    by (auto simp: fileData_def reader_def handleBound_def log_fields Let_def
        split: option.splits if_splits)
next
  case Dir
  with assms show ?thesis
    by (auto simp: fileData_def handleBound_def log_fields Let_def split: option.splits)
qed

lemma handleBound_meta:
  assumes "handleBound s" and "meta w s = Inr (m, s')"
  shows "handleBound s'"
proof (cases "Meta_isValid (m_meta s)")
  case True
  with assms show ?thesis by (auto simp: meta_cached)
next
  case False
  with assms(2) obtain files s1 where fl: "fileList w s = Inr (files, s1)"
    by (auto simp: meta_def split: sum.splits)
  from fileList_handle [OF fl assms(1)] assms(2) meta_scan [OF False fl]
  show ?thesis by (auto simp: handleBound_def split: option.splits)
qed

lemma handleBound_step:
  assumes "handleBound s" and "step w x s = Inr s'"
  shows "handleBound s'"
proof (cases x)
  case Open
  with assms show ?thesis
    by (cases "m_mode s")
       (auto simp: dropValue_def open_def handleBound_def log_fields Let_def
          split: sum.splits option.splits if_splits)
next
  case Close
  with assms show ?thesis
    by (cases "m_mode s")
       (auto simp: dropValue_def close_def handleBound_def split: sum.splits option.splits)
next
  case (SetDevice d)
  with assms(2) show ?thesis by (auto simp: handleBound_def setDevice_fields)
next
  case (SetMode m)
  with assms show ?thesis
    by (auto simp: setMode_def handleBound_def split: option.splits)
next
  case (SetFilePath p)
  with assms show ?thesis
    by (auto simp: setFilePath_def handleBound_def)
next
  case GetMeta
  with assms show ?thesis
    by (auto simp: dropValue_def split: sum.splits dest: handleBound_meta)
next
  case ReadScoreFile
  with assms show ?thesis
    by (auto simp: dropValue_def readScoreFile_def split: sum.splits
        dest: handleBound_meta handleBound_fileData)
next
  case ImageFileNames
  with assms show ?thesis
    by (auto simp: dropValue_def imageFileNames_def split: sum.splits dest: handleBound_meta)
qed (use assms in \<open>auto simp: dropValue_def isOpened_def
       readThumbnailFile_def readImageFile_def readAudioFile_def readAudioSettingsJsonFile_def
       split: sum.splits dest: handleBound_fileData\<close>)

lemma handleBound_run:
  "handleBound s \<Longrightarrow> run w ops s = Inr s' \<Longrightarrow> handleBound s'"
proof (induction ops arbitrary: s)
  case Nil
  then show ?case by simp
next
  case (Cons x xs)
  from Cons.prems(2) obtain s1 where st: "step w x s = Inr s1" and rn: "run w xs s1 = Inr s'"
    by (auto split: sum.splits)
  from Cons.IH [OF handleBound_step [OF Cons.prems(1) st] rn] show ?case .
qed

subsection \<open>The two forms of a container\<close>






lemma fileList_dir:
  "m_mode s = Dir \<Longrightarrow> fileList w s =
     Inr (map (\<lambda>path. mid path (length (rootPath w s))) (fs_iterate w (rootPath w s)),
          s\<lparr>events := events s @ [Enumerated Dir]\<rparr>)"
  by (simp add: fileList_def Let_def)

lemma fresh_invalid:
  "\<not> Meta_isValid (m_meta (MsczReader_device device))"
  "\<not> Meta_isValid (m_meta (MsczReader_path fp md))"
  by (simp_all add: MsczReader_device_def MsczReader_path_def ctor_init Meta_isValid_def Meta_empty_def)






lemmas eval_defs =
  MsczReader_path_def MsczReader_device_def ctor_init Meta_empty_def Meta_isValid_def
  containerWorld_def withDirectory_def emptyWorld_def treeOf_def parentDir_def listed_def openUnder_def archiveOf_def dirJoin_def hidden_def segments_def
  MQZipReader_fileInfoList_def MQZipReader_fileData_def MQZipReader_status_def
  rootPath_def reader_def fileList_def classifyAll_def classify_def meta_def fileData_def
  readScoreFile_def readThumbnailFile_def readImageFile_def imageFileNames_def
  readAudioFile_def readAudioSettingsJsonFile_def
  open_def close_def isOpened_def setDevice_def setFilePath_def setMode_def
  logError_def logWarning_def dropValue_def
  endsWith_def isMscx_def mid_def fileName_def filePath_def Let_def

subsection \<open>Archive and directory readers over the same content\<close>

text \<open>
  Claim C1 (a reader in mode \<^verbatim>\<open>Dir\<close> and a reader in mode \<^verbatim>\<open>Zip\<close> over the same
  content return the same from every role-based accessor) fails on the code. For the
  content \<^verbatim>\<open>Score.mscx\<close>, \<^verbatim>\<open>Pictures/a.png\<close>, the archive reader's
  \<^verbatim>\<open>imageFileNames()\<close> is \<^verbatim>\<open>a.png\<close> and the directory reader's is empty:
  \<^verbatim>\<open>meta()\<close> cuts \<^verbatim>\<open>root.length()\<close> characters off each path, which leaves the
  separator in front, so that \<^verbatim>\<open>startsWith("Pictures/")\<close> never holds.
\<close>

theorem imageFileNames_differ_between_modes:
  "valueOf (imageFileNames
      (containerWorld ''/scores/demo'' [(''Score.mscx'', [1]), (''Pictures/a.png'', [2])])
      (MsczReader_device (Some 0))) = Some [''a.png'']
   \<and> valueOf (imageFileNames
      (containerWorld ''/scores/demo'' [(''Score.mscx'', [1]), (''Pictures/a.png'', [2])])
      (MsczReader_path ''/scores/demo/Score.mscx'' Dir)) = Some []"
  by (simp add: eval_defs valueOf_def)

subsection \<open>Rebinding the device\<close>

text \<open>
  Claim C2, as amended. After \<^verbatim>\<open>setDevice\<close> the mode is \<^verbatim>\<open>Zip\<close>, the warning is
  logged exactly when the mode was \<^verbatim>\<open>Dir\<close>, and the zip reader is discarded. The cached
  snapshot is not touched: when it is valid, the next \<^verbatim>\<open>meta()\<close> returns it as it is and
  changes nothing (no enumeration); only a snapshot that is not valid is computed afresh,
  by one enumeration of the archive behind the new device.
\<close>

theorem setDevice_keeps_metadata:
  "m_mode (setDevice device s) = Zip
   \<and> events (setDevice device s) =
       events s @ (if m_mode s = Dir then [LogWarning ''The mode changed to ZIP''] else [])
   \<and> m_reader (setDevice device s) = None
   \<and> m_meta (setDevice device s) = m_meta s
   \<and> (Meta_isValid (m_meta s) \<longrightarrow>
        meta w (setDevice device s) = Inr (m_meta s, setDevice device s))
   \<and> (\<not> Meta_isValid (m_meta s) \<longrightarrow>
        (\<exists>s'. meta w (setDevice (Some d) s) =
                 Inr (classifyAll (m_meta s)
                        (map fi_filePath
                           (filter fi_isFile (MQZipReader_fileInfoList (zip_archive w d)))), s')
             \<and> scans s' = Suc (scans (setDevice (Some d) s))))"
proof -
  have ev: "events (setDevice device s) =
       events s @ (if m_mode s = Dir then [LogWarning ''The mode changed to ZIP''] else [])"
    by (cases "m_mode s"; cases "m_device s")
       (simp_all add: setDevice_def logWarning_def Let_def)
  have cached: "Meta_isValid (m_meta s) \<longrightarrow>
        meta w (setDevice device s) = Inr (m_meta s, setDevice device s)"
    by (simp add: meta_cached setDevice_fields)
  have fresh: "\<not> Meta_isValid (m_meta s) \<longrightarrow>
        (\<exists>s'. meta w (setDevice (Some d) s) =
                 Inr (classifyAll (m_meta s)
                        (map fi_filePath
                           (filter fi_isFile (MQZipReader_fileInfoList (zip_archive w d)))), s')
             \<and> scans s' = Suc (scans (setDevice (Some d) s)))"
  proof
    assume inv: "\<not> Meta_isValid (m_meta s)"
    let ?t = "setDevice (Some d) s"
    have "\<exists>s1. fileList w ?t =
        Inr (map fi_filePath (filter fi_isFile (MQZipReader_fileInfoList (zip_archive w d))), s1)
        \<and> scans s1 = Suc (scans ?t)"
      by (simp add: fileList_def reader_def setDevice_fields Let_def scans_simps)
    then obtain s1 where fl: "fileList w ?t =
        Inr (map fi_filePath (filter fi_isFile (MQZipReader_fileInfoList (zip_archive w d))), s1)"
      and sc: "scans s1 = Suc (scans ?t)" by blast
    from inv have "\<not> Meta_isValid (m_meta ?t)" by (simp add: setDevice_fields)
    from meta_scan [OF this fl] sc show "\<exists>s'. meta w ?t =
                 Inr (classifyAll (m_meta s)
                        (map fi_filePath
                           (filter fi_isFile (MQZipReader_fileInfoList (zip_archive w d)))), s')
             \<and> scans s' = Suc (scans ?t)"
      by (simp add: setDevice_fields scans_simps)
  qed
  from ev cached fresh show ?thesis by (simp add: setDevice_fields)
qed

theorem setDevice_keeps_metadata_witness:
  "m_mode (setDevice (Some 0)
      ((MsczReader_path ''/scores/demo/Score.mscx'' Dir)
         \<lparr>m_meta := \<lparr>mscxFileName = ''/Score.mscx'', imageFilePaths = []\<rparr>\<rparr>)) = Zip
   \<and> meta (containerWorld ''/scores/demo'' [(''Score.mscx'', [1])])
       (setDevice (Some 0)
          ((MsczReader_path ''/scores/demo/Score.mscx'' Dir)
             \<lparr>m_meta := \<lparr>mscxFileName = ''/Score.mscx'', imageFilePaths = []\<rparr>\<rparr>))
     = Inr (\<lparr>mscxFileName = ''/Score.mscx'', imageFilePaths = []\<rparr>,
            setDevice (Some 0)
              ((MsczReader_path ''/scores/demo/Score.mscx'' Dir)
                 \<lparr>m_meta := \<lparr>mscxFileName = ''/Score.mscx'', imageFilePaths = []\<rparr>\<rparr>))
   \<and> (\<exists>s'. meta (containerWorld ''/scores/demo'' [(''Score.mscx'', [1])])
              (setDevice (Some 0) (MsczReader_path ''/scores/demo/Score.mscx'' Dir))
            = Inr (\<lparr>mscxFileName = ''Score.mscx'', imageFilePaths = []\<rparr>, s')
          \<and> scans s' = Suc (scans (setDevice (Some 0)
                                      (MsczReader_path ''/scores/demo/Score.mscx'' Dir))))"
proof -
  let ?W = "containerWorld ''/scores/demo'' [(''Score.mscx'', [1])]"
  let ?S = "MsczReader_path ''/scores/demo/Score.mscx'' Dir"
  let ?V = "?S\<lparr>m_meta := \<lparr>mscxFileName = ''/Score.mscx'', imageFilePaths = []\<rparr>\<rparr>"
  have v: "Meta_isValid (m_meta ?V)" by (simp add: Meta_isValid_def)
  have f: "\<not> Meta_isValid (m_meta ?S)" by (rule fresh_invalid)
  have c: "classifyAll (m_meta ?S)
             (map fi_filePath (filter fi_isFile (MQZipReader_fileInfoList (zip_archive ?W 0))))
           = \<lparr>mscxFileName = ''Score.mscx'', imageFilePaths = []\<rparr>"
    by (simp add: eval_defs)
  from setDevice_keeps_metadata [of "Some 0" ?V ?W 0] v
  have "m_mode (setDevice (Some 0) ?V) = Zip
      \<and> meta ?W (setDevice (Some 0) ?V) = Inr (m_meta ?V, setDevice (Some 0) ?V)"
    by blast
  moreover from setDevice_keeps_metadata [of "Some 0" ?S ?W 0] f c
  have "\<exists>s'. meta ?W (setDevice (Some 0) ?S)
            = Inr (\<lparr>mscxFileName = ''Score.mscx'', imageFilePaths = []\<rparr>, s')
          \<and> scans s' = Suc (scans (setDevice (Some 0) ?S))"
    by simp
  ultimately show ?thesis by simp
qed

text \<open>
  Claim C2 as stated fails: a directory reader resolves \<^verbatim>\<open>/Score.mscx\<close>, is rebound to a
  device whose archive holds \<^verbatim>\<open>Other.mscx\<close>, and the next \<^verbatim>\<open>meta()\<close> still returns the
  old snapshot, with the state unchanged (no enumeration pass).
\<close>

theorem setDevice_keeps_metadata_counterexample:
  "(case meta (containerWorld ''/scores/demo'' [(''Score.mscx'', [1])])
           (MsczReader_path ''/scores/demo/Score.mscx'' Dir) of
      Inl e \<Rightarrow> False
    | Inr (m, s1) \<Rightarrow>
        mscxFileName m = ''/Score.mscx''
        \<and> m_mode (setDevice (Some 0) s1) = Zip
        \<and> meta ((containerWorld ''/scores/demo'' [(''Score.mscx'', [1])])
                   \<lparr>zip_archive := \<lambda>d. archiveOf [(''Other.mscx'', [2])]\<rparr>)
             (setDevice (Some 0) s1) = Inr (m, setDevice (Some 0) s1))"
  by (simp add: eval_defs)

text \<open>
  Claim C10. For every reader and every device, after \<^verbatim>\<open>setDevice(device)\<close> the flag
  \<^verbatim>\<open>m_selfDeviceOwner\<close> is false and \<^verbatim>\<open>m_device\<close> is the device; destroying the reader
  afterwards succeeds and deletes no device (the list of deleted devices is the one
  \<^verbatim>\<open>setDevice\<close> left).
\<close>

theorem setDevice_never_owns:
  "m_selfDeviceOwner (setDevice device s) = False
   \<and> m_device (setDevice device s) = device
   \<and> (\<exists>s'. destroy (setDevice (Some d) s) = Inr ((), s')
          \<and> deletedDevices s' = deletedDevices (setDevice (Some d) s))"
  by (simp add: setDevice_fields destroy_def close_def Let_def)

theorem setDevice_never_owns_witness:
  "m_selfDeviceOwner (setDevice (Some 1) ((MsczReader_device (Some 0))\<lparr>m_selfDeviceOwner := True\<rparr>))
     = False
   \<and> m_device (setDevice (Some 1) ((MsczReader_device (Some 0))\<lparr>m_selfDeviceOwner := True\<rparr>))
     = Some 1
   \<and> (\<exists>s'. destroy (setDevice (Some 1) ((MsczReader_device (Some 0))\<lparr>m_selfDeviceOwner := True\<rparr>))
              = Inr ((), s')
          \<and> deletedDevices s' = [0])"
proof -
  have "deletedDevices (setDevice (Some 1) ((MsczReader_device (Some 0))\<lparr>m_selfDeviceOwner := True\<rparr>))
          = [0]"
    by (simp add: eval_defs)
  with setDevice_never_owns [of "Some 1" "(MsczReader_device (Some 0))\<lparr>m_selfDeviceOwner := True\<rparr>" 1]
  show ?thesis by simp
qed

subsection \<open>The cached snapshot\<close>

text \<open>
  Claim C3, as amended. Let a call of \<^verbatim>\<open>meta()\<close> return the snapshot \<open>m\<close>. The next call
  returns the same \<open>m\<close>, so image paths never pile up. When \<open>m\<close> is valid (a primary
  document or an image path was recorded), that call enumerates nothing, and after any run
  of member calls, rebinds included, the snapshot is still \<open>m\<close> and no enumeration pass
  has been added. When \<open>m\<close> is not valid (the scan found neither), the next call runs one
  more enumeration pass. (\<^verbatim>\<open>Meta::isValid\<close> is the one modelled from the spec.)
\<close>

theorem meta_snapshot_stable:
  assumes "meta w s = Inr (m, s1)"
  shows "(\<exists>s2. meta w s1 = Inr (m, s2) \<and> m_meta s2 = m
            \<and> scans s2 = (if Meta_isValid m then scans s1 else Suc (scans s1)))
       \<and> (Meta_isValid m \<longrightarrow>
            (\<forall>ops s3. run w ops s1 = Inr s3 \<longrightarrow> m_meta s3 = m \<and> scans s3 = scans s1))"
proof -
  from meta_frame [OF assms] have m1: "m_meta s1 = m" by simp
  have one: "\<exists>s2. meta w s1 = Inr (m, s2) \<and> m_meta s2 = m
            \<and> scans s2 = (if Meta_isValid m then scans s1 else Suc (scans s1))"
  proof (cases "Meta_isValid m")
    case True
    with m1 show ?thesis by (simp add: meta_cached)
  next
    case False
    have inv: "\<not> Meta_isValid (m_meta s)"
    proof
      assume "Meta_isValid (m_meta s)"
      with assms False show False by (auto simp: meta_cached)
    qed
    then obtain files s0 where fl: "fileList w s = Inr (files, s0)"
      using assms by (auto simp: meta_def split: sum.splits)
    from assms meta_scan [OF inv fl]
    have m: "m = classifyAll (m_meta s) files" and s1: "s1 = s0\<lparr>m_meta := m\<rparr>" by auto
    from fileList_again [OF fl, of m] s1 obtain s2
      where fl2: "fileList w s1 = Inr (files, s2)" and sc: "scans s2 = Suc (scans s0)" by auto
    from fileList_frame [OF fl] have "m_meta s0 = m_meta s" by simp
    have same: "classifyAll m files = m"
    proof -
      have "\<not> Meta_isValid (classifyAll (m_meta s) files)" using False m by simp
      then have "classifyAll (m_meta s) files = m_meta s" by (rule classifyAll_invalid)
      with m show ?thesis by simp
    qed
    from False m1 have "\<not> Meta_isValid (m_meta s1)" by simp
    from meta_scan [OF this fl2] same m1 False sc s1
    show ?thesis by (simp add: scans_simps)
  qed
  moreover have "Meta_isValid m \<longrightarrow>
            (\<forall>ops s3. run w ops s1 = Inr s3 \<longrightarrow> m_meta s3 = m \<and> scans s3 = scans s1)"
    using run_valid [of s1 w] m1 by auto
  ultimately show ?thesis by blast
qed

theorem meta_snapshot_stable_witness:
  "(\<exists>m s1 s2. meta (containerWorld ''/scores/demo'' [(''Score.mscx'', [1])])
                (MsczReader_device (Some 0)) = Inr (m, s1)
      \<and> mscxFileName m = ''Score.mscx''
      \<and> meta (containerWorld ''/scores/demo'' [(''Score.mscx'', [1])]) s1 = Inr (m, s2)
      \<and> scans s2 = scans s1)
   \<and> (\<exists>m s1 s2. meta (containerWorld ''/scores/demo'' [(''audio.ogg'', [1])])
                (MsczReader_device (Some 0)) = Inr (m, s1)
      \<and> m = Meta_empty
      \<and> meta (containerWorld ''/scores/demo'' [(''audio.ogg'', [1])]) s1 = Inr (m, s2)
      \<and> scans s2 = Suc (scans s1))"
proof -
  let ?W = "containerWorld ''/scores/demo'' [(''Score.mscx'', [1])]"
  let ?E = "containerWorld ''/scores/demo'' [(''audio.ogg'', [1])]"
  have "\<exists>m s1. meta ?W (MsczReader_device (Some 0)) = Inr (m, s1)
          \<and> mscxFileName m = ''Score.mscx''"
    by (simp add: eval_defs)
  then obtain m s1 where m: "meta ?W (MsczReader_device (Some 0)) = Inr (m, s1)"
    and n: "mscxFileName m = ''Score.mscx''" by blast
  from n have "Meta_isValid m" by (simp add: Meta_isValid_def)
  with meta_snapshot_stable [OF m] m n
  have one: "\<exists>m s1 s2. meta ?W (MsczReader_device (Some 0)) = Inr (m, s1)
      \<and> mscxFileName m = ''Score.mscx'' \<and> meta ?W s1 = Inr (m, s2) \<and> scans s2 = scans s1"
    by auto
  have "\<exists>s1. meta ?E (MsczReader_device (Some 0)) = Inr (Meta_empty, s1)"
    by (simp add: eval_defs)
  then obtain e1 where e: "meta ?E (MsczReader_device (Some 0)) = Inr (Meta_empty, e1)" ..
  have "\<not> Meta_isValid Meta_empty" by (simp add: Meta_isValid_def Meta_empty_def)
  with meta_snapshot_stable [OF e] e
  have two: "\<exists>m s1 s2. meta ?E (MsczReader_device (Some 0)) = Inr (m, s1)
      \<and> m = Meta_empty \<and> meta ?E s1 = Inr (m, s2) \<and> scans s2 = Suc (scans s1)"
    by auto
  from one two show ?thesis by blast
qed

text \<open>
  Claim C3 as stated (at most one enumeration pass in a reader's life) fails: over a
  container with neither a document nor a picture, two calls of \<^verbatim>\<open>meta()\<close> on one
  reader, with no rebind between them, make two passes.
\<close>

theorem meta_snapshot_stable_counterexample:
  "\<exists>s. run (containerWorld ''/scores/demo'' [(''audio.ogg'', [1])]) [GetMeta, GetMeta]
         (MsczReader_device (Some 0)) = Inr s \<and> scans s = 2"
  by (simp add: eval_defs scans_def)

subsection \<open>The primary document\<close>






text \<open>
  Claim C5. For a reader whose snapshot is not yet valid: when the enumeration pass
  yields two or more paths that end in \<^verbatim>\<open>.mscx\<close>, \<^verbatim>\<open>meta()\<close> resolves
  \<^verbatim>\<open>mscxFileName\<close> to the last of them in enumeration order.
\<close>

theorem meta_last_mscx_wins:
  assumes "\<not> Meta_isValid (m_meta s)"
    and "fileList w s = Inr (files, s1)"
    and "2 \<le> length (filter isMscx files)"
  shows "\<exists>m s2. meta w s = Inr (m, s2) \<and> m_meta s2 = m
            \<and> mscxFileName m = last (filter isMscx files)"
proof -
  from assms(3) have "filter isMscx files \<noteq> []" by auto
  then show ?thesis
    using meta_scan [OF assms(1,2)] by (simp add: mscx_classifyAll)
qed

theorem meta_last_mscx_wins_witness:
  "2 \<le> length (filter isMscx [''A.mscx'', ''Pictures/p.png'', ''B.mscx''])
   \<and> (\<exists>m s2. meta (containerWorld ''/scores/demo''
                     [(''A.mscx'', [1]), (''Pictures/p.png'', [2]), (''B.mscx'', [3])])
                (MsczReader_device (Some 0)) = Inr (m, s2)
          \<and> m_meta s2 = m \<and> mscxFileName m = ''B.mscx'')"
proof -
  let ?W = "containerWorld ''/scores/demo''
              [(''A.mscx'', [1]), (''Pictures/p.png'', [2]), (''B.mscx'', [3])]"
  have h1: "\<not> Meta_isValid (m_meta (MsczReader_device (Some 0)))"
    by (simp add: eval_defs)
  have h2: "fileList ?W (MsczReader_device (Some 0)) =
      Inr ([''A.mscx'', ''Pictures/p.png'', ''B.mscx''],
           (MsczReader_device (Some 0))\<lparr>m_reader := Some (Some 0), events := [Enumerated Zip]\<rparr>)"
    by (simp add: eval_defs)
  have h3: "2 \<le> length (filter isMscx [''A.mscx'', ''Pictures/p.png'', ''B.mscx''])"
    by (simp add: eval_defs)
  from meta_last_mscx_wins [OF h1 h2 h3] h3 show ?thesis by (simp add: isMscx_def endsWith_def)
qed

lemma MQZipReader_fileData_absent:
  "name \<notin> set (map (\<lambda>e. fi_filePath (fst e)) (ar_entries a)) \<Longrightarrow> MQZipReader_fileData a name = []"
  by (auto simp: MQZipReader_fileData_def find_None_iff split: option.splits dest!: find_Some_iff [THEN iffD1])

lemma absent_frame:
  "m_mode s1 = m_mode s \<Longrightarrow> m_device s1 = m_device s \<Longrightarrow> m_filePath s1 = m_filePath s
     \<Longrightarrow> absent w s1 name = absent w s name"
  by (cases "m_mode s") (simp_all add: absent_def rootPath_def)

lemma fileData_missing':
  assumes "handleBound s" and "absent w s name" and "m_mode s = Zip \<longrightarrow> m_device s \<noteq> None"
  shows "\<exists>s'. fileData w name s = Inr ([], s')"
proof (cases "m_mode s")
  case Zip
  with assms(3) obtain d where d: "m_device s = Some d" by auto
  with Zip assms(2) have "MQZipReader_fileData (zip_archive w d) name = []"
    by (intro MQZipReader_fileData_absent) (simp add: absent_def)
  with Zip d show ?thesis
    by (simp add: fileData_def reader_bound [OF assms(1)] Let_def)
next
  case Dir
  with assms(2) show ?thesis
    by (simp add: fileData_def absent_def Let_def)
qed

text \<open>
  Claim C6. For a reader whose snapshot is not yet valid: when the enumeration pass
  yields no path that ends in \<^verbatim>\<open>.mscx\<close>, \<^verbatim>\<open>meta().mscxFileName\<close> stays empty and
  \<^verbatim>\<open>readScoreFile()\<close> returns an empty byte array, with no crash. The empty path
  names nothing in the storage (\<open>absent w s []\<close>), and the zip reader, if there is one,
  is the one made over the current device, as it is in every state that member calls
  reach from a constructor (\<open>handleBound_constructed\<close>, \<open>handleBound_run\<close>).
\<close>

theorem no_mscx_reads_empty:
  assumes "\<not> Meta_isValid (m_meta s)" and "handleBound s"
    and "fileList w s = Inr (files, s1)"
    and "filter isMscx files = []"
    and "absent w s []"
  shows "\<exists>m s2 s3. meta w s = Inr (m, s2) \<and> mscxFileName m = []
            \<and> readScoreFile w s = Inr ([], s3)"
proof -
  let ?m = "classifyAll (m_meta s) files"
  let ?s2 = "s1\<lparr>m_meta := ?m\<rparr>"
  have m: "meta w s = Inr (?m, ?s2)" by (rule meta_scan [OF assms(1,3)])
  have unset: "mscxFileName ?m = []"
    using assms(1,4) by (simp add: mscx_classifyAll Meta_isValid_def)
  note fr = fileList_frame [OF assms(3)]
  have hb: "handleBound ?s2"
    using fileList_handle [OF assms(3,2)] by (simp add: handleBound_def split: option.splits)
  have ab: "absent w ?s2 []"
    using assms(5) fr absent_frame [of ?s2 s w "[]"] by simp
  have dev: "m_mode ?s2 = Zip \<longrightarrow> m_device ?s2 \<noteq> None"
    using assms(5) fr by (auto simp: absent_def split: Mode.splits option.splits)
  from fileData_missing' [OF hb ab dev] obtain s3 where "fileData w [] ?s2 = Inr ([], s3)" ..
  with m unset show ?thesis by (simp add: readScoreFile_def)
qed

theorem no_mscx_reads_empty_witness:
  "\<exists>m s2 s3. meta (containerWorld ''/scores/demo'' [(''audio.ogg'', [7])])
                  (MsczReader_path ''/scores/demo/Score.mscx'' Dir) = Inr (m, s2)
       \<and> mscxFileName m = []
       \<and> readScoreFile (containerWorld ''/scores/demo'' [(''audio.ogg'', [7])])
                  (MsczReader_path ''/scores/demo/Score.mscx'' Dir) = Inr ([], s3)"
proof -
  let ?W = "containerWorld ''/scores/demo'' [(''audio.ogg'', [7])]"
  let ?S = "MsczReader_path ''/scores/demo/Score.mscx'' Dir"
  have h1: "\<not> Meta_isValid (m_meta ?S)" by (simp add: eval_defs)
  have h2: "handleBound ?S" by (simp add: eval_defs handleBound_def)
  have h3: "fileList ?W ?S = Inr ([''/audio.ogg''], ?S\<lparr>events := [Enumerated Dir]\<rparr>)"
    by (simp add: eval_defs)
  have h4: "filter isMscx [''/audio.ogg''] = []" by (simp add: eval_defs)
  have h5: "absent ?W ?S []" by (simp add: eval_defs absent_def)
  from no_mscx_reads_empty [OF h1 h2 h3 h4 h5] show ?thesis .
qed

subsection \<open>Reading what is not there\<close>

lemma fileData_missing:
  assumes "handleBound s" and "isOpened w s = Inr True" and "absent w s name"
  shows "\<exists>s'. fileData w name s = Inr ([], s') \<and> s' = s\<lparr>m_reader := m_reader s', events := events s'\<rparr>"
proof -
  from assms(2) have "m_mode s = Zip \<longrightarrow> m_device s \<noteq> None"
    by (auto simp: isOpened_def split: option.splits)
  from fileData_missing' [OF assms(1,3) this] obtain s' where f: "fileData w name s = Inr ([], s')" ..
  from f fileData_only_logs [OF f] show ?thesis by blast
qed

text \<open>
  Claim C7. For every opened reader and every path that is absent from its storage,
  \<^verbatim>\<open>fileData\<close> returns an empty byte array and does not crash; the call changes nothing
  but the log and the lazily made zip reader. The same holds for each role-based read of
  a fixed path: \<^verbatim>\<open>readImageFile\<close>, \<^verbatim>\<open>readThumbnailFile\<close>, \<^verbatim>\<open>readAudioFile\<close>,
  \<^verbatim>\<open>readAudioSettingsJsonFile\<close>. The zip reader, if there is one, is the one made
  over the current device, as it is in every state that member calls reach from a
  constructor (\<open>handleBound_constructed\<close>, \<open>handleBound_run\<close>).
\<close>

theorem missing_path_reads_empty:
  assumes "handleBound s" and "isOpened w s = Inr True"
  shows "(absent w s name \<longrightarrow>
            (\<exists>s'. fileData w name s = Inr ([], s')
                \<and> s' = s\<lparr>m_reader := m_reader s', events := events s'\<rparr>))
       \<and> (absent w s (''Pictures/'' @ img) \<longrightarrow> (\<exists>s'. readImageFile w img s = Inr ([], s')))
       \<and> (absent w s ''Thumbnails/thumbnail.png'' \<longrightarrow> (\<exists>s'. readThumbnailFile w s = Inr ([], s')))
       \<and> (absent w s ''audio.ogg'' \<longrightarrow> (\<exists>s'. readAudioFile w s = Inr ([], s')))
       \<and> (absent w s ''audiosettings.json'' \<longrightarrow> (\<exists>s'. readAudioSettingsJsonFile w s = Inr ([], s')))"
proof -
  have "\<And>n. absent w s n \<Longrightarrow> \<exists>s'. fileData w n s = Inr ([], s')"
    using fileData_missing [OF assms] by blast
  then show ?thesis
    using fileData_missing [OF assms, of name]
    by (simp add: readImageFile_def readThumbnailFile_def readAudioFile_def
          readAudioSettingsJsonFile_def)
qed

theorem missing_path_reads_empty_witness:
  "isOpened (containerWorld ''/scores/demo'' [(''Score.mscx'', [1])])
      ((MsczReader_device (Some 0))\<lparr>openDevices := {0}\<rparr>) = Inr True
   \<and> (\<exists>s'. fileData (containerWorld ''/scores/demo'' [(''Score.mscx'', [1])])
              ''score.mscx'' ((MsczReader_device (Some 0))\<lparr>openDevices := {0}\<rparr>) = Inr ([], s'))
   \<and> (\<exists>s'. readImageFile (containerWorld ''/scores/demo'' [(''Score.mscx'', [1])])
              ''missing.png'' ((MsczReader_device (Some 0))\<lparr>openDevices := {0}\<rparr>) = Inr ([], s'))
   \<and> (\<exists>s'. readThumbnailFile (containerWorld ''/scores/demo'' [(''Score.mscx'', [1])])
              ((MsczReader_device (Some 0))\<lparr>openDevices := {0}\<rparr>) = Inr ([], s'))
   \<and> (\<exists>s'. readAudioFile (containerWorld ''/scores/demo'' [(''Score.mscx'', [1])])
              ((MsczReader_device (Some 0))\<lparr>openDevices := {0}\<rparr>) = Inr ([], s'))
   \<and> (\<exists>s'. readAudioSettingsJsonFile (containerWorld ''/scores/demo'' [(''Score.mscx'', [1])])
              ((MsczReader_device (Some 0))\<lparr>openDevices := {0}\<rparr>) = Inr ([], s'))
   \<and> (\<exists>s'. readImageFile (containerWorld ''/scores/demo'' [(''Score.mscx'', [1])])
              ''missing.png'' (MsczReader_path ''/scores/demo/Score.mscx'' Dir) = Inr ([], s'))"
proof -
  let ?W = "containerWorld ''/scores/demo'' [(''Score.mscx'', [1])]"
  let ?S = "(MsczReader_device (Some 0))\<lparr>openDevices := {0}\<rparr>"
  let ?D = "MsczReader_path ''/scores/demo/Score.mscx'' Dir"
  have h1: "handleBound ?S" by (simp add: eval_defs handleBound_def)
  have h2: "isOpened ?W ?S = Inr True" by (simp add: eval_defs)
  have a0: "absent ?W ?S ''score.mscx''" by (simp add: eval_defs absent_def)
  have a1: "absent ?W ?S (''Pictures/'' @ ''missing.png'')" by (simp add: eval_defs absent_def)
  have a2: "absent ?W ?S ''Thumbnails/thumbnail.png''" by (simp add: eval_defs absent_def)
  have a3: "absent ?W ?S ''audio.ogg''" by (simp add: eval_defs absent_def)
  have a4: "absent ?W ?S ''audiosettings.json''" by (simp add: eval_defs absent_def)
  have d1: "handleBound ?D" by (simp add: eval_defs handleBound_def)
  have d2: "isOpened ?W ?D = Inr True" by (simp add: eval_defs)
  have d3: "absent ?W ?D (''Pictures/'' @ ''missing.png'')" by (simp add: eval_defs absent_def)
  from missing_path_reads_empty [OF h1 h2, of "''score.mscx''" "''missing.png''"] a0 a1 a2 a3 a4
  have zip: "(\<exists>s'. fileData ?W ''score.mscx'' ?S = Inr ([], s'))
     \<and> (\<exists>s'. readImageFile ?W ''missing.png'' ?S = Inr ([], s'))
     \<and> (\<exists>s'. readThumbnailFile ?W ?S = Inr ([], s'))
     \<and> (\<exists>s'. readAudioFile ?W ?S = Inr ([], s'))
     \<and> (\<exists>s'. readAudioSettingsJsonFile ?W ?S = Inr ([], s'))"
    by blast
  from missing_path_reads_empty [OF d1 d2, of _ "''missing.png''"] d3
  have dir: "\<exists>s'. readImageFile ?W ''missing.png'' ?D = Inr ([], s')" by blast
  from h2 zip dir show ?thesis by blast
qed

subsection \<open>The storage mode along a run\<close>

text \<open>
  Claim C8, as amended. Along every run of member calls that does not call
  \<^verbatim>\<open>setMode\<close>, a reader in mode \<^verbatim>\<open>Zip\<close> stays in mode \<^verbatim>\<open>Zip\<close>, and the mode
  changes only when the run calls \<^verbatim>\<open>setDevice\<close> (from \<^verbatim>\<open>Dir\<close> to \<^verbatim>\<open>Zip\<close>).
\<close>

theorem mode_never_downgraded_without_setMode:
  assumes "run w ops s = Inr s'" and "\<forall>m. SetMode m \<notin> set ops"
  shows "(m_mode s = Zip \<longrightarrow> m_mode s' = Zip)
       \<and> (m_mode s' \<noteq> m_mode s \<longrightarrow> (\<exists>d. SetDevice d \<in> set ops))"
  using assms
proof (induction ops arbitrary: s)
  case Nil
  then show ?case by simp
next
  case (Cons x xs)
  from Cons.prems(1) obtain s1 where st: "step w x s = Inr s1" and rn: "run w xs s1 = Inr s'"
    by (auto split: sum.splits)
  from Cons.prems(2) have nx: "\<forall>m. SetMode m \<notin> set xs" and x: "\<forall>m. x \<noteq> SetMode m" by auto
  note ih = Cons.IH [OF rn nx]
  from step_mode [OF st] x have m1: "m_mode s1 = m_mode s \<or> (\<exists>d. x = SetDevice d) \<and> m_mode s1 = Zip"
    by (cases x) auto
  from ih m1 show ?case by (cases "m_mode s") auto
qed

theorem mode_never_downgraded_without_setMode_witness:
  "(\<exists>s'. run (containerWorld ''/scores/demo'' [(''Score.mscx'', [1])])
           [Open, ReadScoreFile, SetDevice (Some 1), ReadAudioFile, Close]
           (MsczReader_device (Some 0)) = Inr s'
      \<and> m_mode s' = Zip)
   \<and> (\<exists>s'. run (containerWorld ''/scores/demo'' [(''Score.mscx'', [1])])
           [Open, ReadScoreFile, SetDevice (Some 1), ReadAudioFile]
           (MsczReader_path ''/scores/demo/Score.mscx'' Dir) = Inr s'
      \<and> m_mode s' = Zip
      \<and> (\<exists>d. SetDevice d \<in> set [Open, ReadScoreFile, SetDevice (Some 1), ReadAudioFile]))"
proof -
  let ?W = "containerWorld ''/scores/demo'' [(''Score.mscx'', [1])]"
  let ?ops = "[Open, ReadScoreFile, SetDevice (Some 1), ReadAudioFile, Close]"
  let ?ops2 = "[Open, ReadScoreFile, SetDevice (Some 1), ReadAudioFile]"
  have "\<exists>s'. run ?W ?ops (MsczReader_device (Some 0)) = Inr s'"
    by (simp add: eval_defs)
  then obtain s' where r: "run ?W ?ops (MsczReader_device (Some 0)) = Inr s'" ..
  have n: "\<forall>m. SetMode m \<notin> set ?ops" by simp
  have z: "m_mode (MsczReader_device (Some 0)) = Zip" by (simp add: eval_defs)
  from mode_never_downgraded_without_setMode [OF r n] z r
  have one: "\<exists>s'. run ?W ?ops (MsczReader_device (Some 0)) = Inr s' \<and> m_mode s' = Zip"
    by blast
  have "\<exists>t. run ?W ?ops2 (MsczReader_path ''/scores/demo/Score.mscx'' Dir) = Inr t
          \<and> m_mode t = Zip"
    by (simp add: eval_defs)
  then obtain t where r2: "run ?W ?ops2 (MsczReader_path ''/scores/demo/Score.mscx'' Dir) = Inr t"
    and z2: "m_mode t = Zip" by blast
  have n2: "\<forall>m. SetMode m \<notin> set ?ops2" by simp
  have d2: "m_mode (MsczReader_path ''/scores/demo/Score.mscx'' Dir) = Dir"
    by (simp add: eval_defs)
  from mode_never_downgraded_without_setMode [OF r2 n2] z2 d2
  have "\<exists>d. SetDevice d \<in> set ?ops2" by simp
  with r2 z2 one show ?thesis by blast
qed

text \<open>
  Claim C8 as stated fails: \<^verbatim>\<open>setMode\<close> is public and sets whatever mode it is
  given, so \<^verbatim>\<open>setMode(Dir)\<close> on a reader made over a device takes it from \<^verbatim>\<open>Zip\<close> to
  \<^verbatim>\<open>Dir\<close>.
\<close>

theorem mode_never_downgraded_counterexample:
  "m_mode (MsczReader_device (Some 0)) = Zip
   \<and> (\<exists>s'. run (containerWorld ''/scores/demo'' [(''Score.mscx'', [1])]) [SetMode Dir]
               (MsczReader_device (Some 0)) = Inr s' \<and> m_mode s' = Dir)"
  by (simp add: eval_defs)

subsection \<open>Image paths in directory mode\<close>

lemma dir_files_start_with_separator:
  assumes "\<forall>f \<in> set paths. \<exists>rel. f = dirJoin root rel" and "\<not> endsWith root ''/''"
  shows "\<forall>f \<in> set (map (\<lambda>path. mid path (length root)) paths). startsWith f ''/''"
  using assms by (auto simp: mid_dirJoin)

lemma dir_files_no_pictures:
  assumes "\<forall>f \<in> set paths. \<exists>rel. f = dirJoin root rel" and "\<not> endsWith root ''/''"
  shows "filter (\<lambda>p. \<not> isMscx p \<and> startsWith p ''Pictures/'')
           (map (\<lambda>path. mid path (length root)) paths) = []"
  using assms by (auto simp: mid_dirJoin filter_empty_conv)

lemma meta_dir_images:
  assumes "\<forall>r. \<forall>f \<in> set (fs_iterate w r). \<exists>rel. f = dirJoin r rel"
    and "\<not> endsWith (rootPath w s) ''/''" and "m_mode s = Dir"
  shows "\<exists>m s'. meta w s = Inr (m, s') \<and> imageFilePaths m = imageFilePaths (m_meta s)"
proof (cases "Meta_isValid (m_meta s)")
  case True
  then show ?thesis by (simp add: meta_cached)
next
  case False
  from assms(1) have "\<forall>f \<in> set (fs_iterate w (rootPath w s)). \<exists>rel. f = dirJoin (rootPath w s) rel"
    by blast
  from meta_scan [OF False fileList_dir [OF assms(3)]] dir_files_no_pictures [OF this assms(2)]
  show ?thesis by (simp add: images_classifyAll)
qed

lemma meta_keeps_filePath:
  assumes "meta w s = Inr (m, s')"
  shows "m_filePath s' = m_filePath s"
proof (cases "Meta_isValid (m_meta s)")
  case True
  with assms show ?thesis by (auto simp: meta_cached)
next
  case False
  with assms obtain files s1 where fl: "fileList w s = Inr (files, s1)"
    by (auto simp: meta_def split: sum.splits)
  from assms meta_scan [OF False fl] fileList_frame [OF fl] show ?thesis by auto
qed

lemma fileData_keeps_filePath:
  assumes "fileData w name s = Inr (v, s')"
  shows "m_filePath s' = m_filePath s"
proof -
  from fileData_only_logs [OF assms]
  have "m_filePath s' = m_filePath (s\<lparr>m_reader := m_reader s', events := events s'\<rparr>)"
    by simp
  then show ?thesis by simp
qed

lemma meta_keeps_noImagesInDir:
  assumes "\<forall>r. \<forall>f \<in> set (fs_iterate w r). \<exists>rel. f = dirJoin r rel"
    and "\<not> endsWith (fs_absolutePath w (m_filePath s)) ''/''"
    and "noImagesInDir s" and "meta w s = Inr (m, s')"
  shows "noImagesInDir s'"
proof (cases "m_mode s")
  case Zip
  with meta_frame [OF assms(4)] show ?thesis by (simp add: noImagesInDir_def)
next
  case Dir
  with assms(3) have "imageFilePaths (m_meta s) = []" by (simp add: noImagesInDir_def)
  moreover from assms(2) Dir have "\<not> endsWith (rootPath w s) ''/''" by (simp add: rootPath_def)
  ultimately show ?thesis
    using meta_dir_images [OF assms(1) _ Dir] assms(4) meta_frame [OF assms(4)]
    by (auto simp: noImagesInDir_def)
qed

lemma fileData_keeps_noImagesInDir:
  "noImagesInDir s \<Longrightarrow> fileData w name s = Inr (v, s') \<Longrightarrow> noImagesInDir s'"
  by (auto simp: noImagesInDir_def dest!: fileData_frame)

lemma step_keeps_noImagesInDir:
  assumes "\<forall>r. \<forall>f \<in> set (fs_iterate w r). \<exists>rel. f = dirJoin r rel"
    and "\<not> endsWith (fs_absolutePath w (m_filePath s)) ''/''"
    and "noImagesInDir s"
    and "step w x s = Inr s'" and "\<forall>m. x \<noteq> SetMode m"
    and "\<forall>p. x = SetFilePath p \<longrightarrow> \<not> endsWith (fs_absolutePath w p) ''/''"
  shows "noImagesInDir s' \<and> \<not> endsWith (fs_absolutePath w (m_filePath s')) ''/''"
proof (cases x)
  case Open
  with assms(2,3,4) show ?thesis
    by (cases "m_mode s")
       (auto simp: dropValue_def noImagesInDir_def open_def logError_def Let_def
          split: sum.splits option.splits if_splits)
next
  case Close
  with assms(2,3,4) show ?thesis
    by (cases "m_mode s")
       (auto simp: dropValue_def noImagesInDir_def close_def split: sum.splits option.splits)
next
  case (SetDevice d)
  with assms(2,4) show ?thesis by (auto simp: noImagesInDir_def setDevice_fields)
next
  case (SetFilePath p)
  with assms(3,4,6) show ?thesis by (auto simp: noImagesInDir_def setFilePath_def)
next
  case (SetMode m)
  with assms(5) show ?thesis by simp
next
  case GetMeta
  with assms(4) obtain m where m: "meta w s = Inr (m, s')"
    by (auto simp: dropValue_def split: sum.splits)
  from meta_keeps_noImagesInDir [OF assms(1,2,3) m] meta_keeps_filePath [OF m] assms(2)
  show ?thesis by simp
next
  case ReadScoreFile
  with assms(4) obtain m s1 v where m: "meta w s = Inr (m, s1)"
    and f: "fileData w (mscxFileName m) s1 = Inr (v, s')"
    by (auto simp: dropValue_def readScoreFile_def split: sum.splits)
  from fileData_keeps_noImagesInDir [OF meta_keeps_noImagesInDir [OF assms(1,2,3) m] f]
    meta_keeps_filePath [OF m] fileData_keeps_filePath [OF f] assms(2)
  show ?thesis by simp
next
  case ImageFileNames
  with assms(4) obtain m where m: "meta w s = Inr (m, s')"
    by (auto simp: dropValue_def imageFileNames_def split: sum.splits)
  from meta_keeps_noImagesInDir [OF assms(1,2,3) m] meta_keeps_filePath [OF m] assms(2)
  show ?thesis by simp
next
  case (FileData n)
  with assms(4) obtain v where f: "fileData w n s = Inr (v, s')"
    by (auto simp: dropValue_def split: sum.splits)
  from fileData_keeps_noImagesInDir [OF assms(3) f] fileData_keeps_filePath [OF f] assms(2)
  show ?thesis by simp
next
  case ReadThumbnailFile
  with assms(4) obtain v where f: "fileData w ''Thumbnails/thumbnail.png'' s = Inr (v, s')"
    by (auto simp: dropValue_def readThumbnailFile_def split: sum.splits)
  from fileData_keeps_noImagesInDir [OF assms(3) f] fileData_keeps_filePath [OF f] assms(2)
  show ?thesis by simp
next
  case (ReadImageFile n)
  with assms(4) obtain v where f: "fileData w (''Pictures/'' @ n) s = Inr (v, s')"
    by (auto simp: dropValue_def readImageFile_def split: sum.splits)
  from fileData_keeps_noImagesInDir [OF assms(3) f] fileData_keeps_filePath [OF f] assms(2)
  show ?thesis by simp
next
  case ReadAudioFile
  with assms(4) obtain v where f: "fileData w ''audio.ogg'' s = Inr (v, s')"
    by (auto simp: dropValue_def readAudioFile_def split: sum.splits)
  from fileData_keeps_noImagesInDir [OF assms(3) f] fileData_keeps_filePath [OF f] assms(2)
  show ?thesis by simp
next
  case ReadAudioSettingsJsonFile
  with assms(4) obtain v where f: "fileData w ''audiosettings.json'' s = Inr (v, s')"
    by (auto simp: dropValue_def readAudioSettingsJsonFile_def split: sum.splits)
  from fileData_keeps_noImagesInDir [OF assms(3) f] fileData_keeps_filePath [OF f] assms(2)
  show ?thesis by simp
qed (use assms(2,3,4) in \<open>auto split: sum.splits\<close>)

lemma run_keeps_noImagesInDir:
  assumes "\<forall>r. \<forall>f \<in> set (fs_iterate w r). \<exists>rel. f = dirJoin r rel"
  shows "\<not> endsWith (fs_absolutePath w (m_filePath s)) ''/'' \<Longrightarrow> noImagesInDir s \<Longrightarrow>
           \<forall>m. SetMode m \<notin> set ops \<Longrightarrow>
           \<forall>p. SetFilePath p \<in> set ops \<longrightarrow> \<not> endsWith (fs_absolutePath w p) ''/'' \<Longrightarrow>
           run w ops s = Inr s' \<Longrightarrow>
           noImagesInDir s' \<and> \<not> endsWith (fs_absolutePath w (m_filePath s')) ''/''"
proof (induction ops arbitrary: s)
  case Nil
  then show ?case by simp
next
  case (Cons x xs)
  from Cons.prems(5) obtain s1 where st: "step w x s = Inr s1" and rn: "run w xs s1 = Inr s'"
    by (auto split: sum.splits)
  from Cons.prems(3) have nx: "\<forall>m. SetMode m \<notin> set xs" and x: "\<forall>m. x \<noteq> SetMode m" by auto
  from Cons.prems(4)
  have px: "\<forall>p. SetFilePath p \<in> set xs \<longrightarrow> \<not> endsWith (fs_absolutePath w p) ''/''"
    and xp: "\<forall>p. x = SetFilePath p \<longrightarrow> \<not> endsWith (fs_absolutePath w p) ''/''" by auto
  from step_keeps_noImagesInDir [OF assms Cons.prems(1,2) st x xp]
  have k: "noImagesInDir s1" and r: "\<not> endsWith (fs_absolutePath w (m_filePath s1)) ''/''"
    by simp_all
  from Cons.IH [OF r k nx px rn] show ?case .
qed

lemma withDirectory_contract:
  assumes "\<forall>r. \<forall>f \<in> set (fs_iterate w r). \<exists>rel. f = dirJoin r rel"
  shows "\<forall>r. \<forall>f \<in> set (fs_iterate (withDirectory w root tree) r). \<exists>rel. f = dirJoin r rel"
  using assms by (auto simp: withDirectory_def)

lemma containerWorld_contract:
  "\<forall>r. \<forall>f \<in> set (fs_iterate (containerWorld root content) r). \<exists>rel. f = dirJoin r rel"
proof -
  have "\<forall>r. \<forall>f \<in> set (fs_iterate emptyWorld r). \<exists>rel. f = dirJoin r rel"
    by (simp add: emptyWorld_def)
  from withDirectory_contract [OF this, of root "treeOf content"]
  show ?thesis by (simp add: containerWorld_def)
qed

text \<open>
  Claim C9, as amended. Let the directory iterator yield, for every root, paths made of
  the root, one separator and a relative path (\<open>dirJoin\<close>). Take a reader constructed
  in mode \<^verbatim>\<open>Dir\<close>, after any run of member calls without \<^verbatim>\<open>setMode\<close>, and let its
  root never end with a separator (any root but the file system's \<^verbatim>\<open>/\<close>): neither
  the directory of the path it was constructed on nor that of a path given to
  \<^verbatim>\<open>setFilePath\<close>. While it is in mode \<^verbatim>\<open>Dir\<close>, every path of an enumeration pass
  starts with the separator, and \<^verbatim>\<open>meta().imageFilePaths\<close> is empty, whatever lies
  under \<^verbatim>\<open>Pictures\<close>.
\<close>

theorem dir_mode_finds_no_images:
  assumes "\<forall>r. \<forall>f \<in> set (fs_iterate w r). \<exists>rel. f = dirJoin r rel"
    and "\<not> endsWith (fs_absolutePath w fp) ''/''"
    and "\<forall>p. SetFilePath p \<in> set ops \<longrightarrow> \<not> endsWith (fs_absolutePath w p) ''/''"
    and "\<forall>m. SetMode m \<notin> set ops"
    and "run w ops (MsczReader_path fp Dir) = Inr s"
    and "m_mode s = Dir"
  shows "(\<exists>files s1. fileList w s = Inr (files, s1) \<and> (\<forall>f \<in> set files. startsWith f ''/''))
       \<and> (\<exists>m s2. meta w s = Inr (m, s2) \<and> imageFilePaths m = [])"
proof -
  have k0: "noImagesInDir (MsczReader_path fp Dir)"
    by (simp add: noImagesInDir_def MsczReader_path_def ctor_init Meta_empty_def)
  have r0: "\<not> endsWith (fs_absolutePath w (m_filePath (MsczReader_path fp Dir))) ''/''"
    using assms(2) by (simp add: MsczReader_path_def)
  from run_keeps_noImagesInDir [OF assms(1) r0 k0 assms(4,3,5)]
  have k: "noImagesInDir s" and r: "\<not> endsWith (fs_absolutePath w (m_filePath s)) ''/''"
    by simp_all
  from r assms(6) have rp: "\<not> endsWith (rootPath w s) ''/''" by (simp add: rootPath_def)
  from k assms(6) have "imageFilePaths (m_meta s) = []" by (simp add: noImagesInDir_def)
  with meta_dir_images [OF assms(1) rp assms(6)]
  have "\<exists>m s2. meta w s = Inr (m, s2) \<and> imageFilePaths m = []" by auto
  moreover from assms(1)
  have "\<forall>f \<in> set (fs_iterate w (rootPath w s)). \<exists>rel. f = dirJoin (rootPath w s) rel" by blast
  from fileList_dir [OF assms(6), of w] dir_files_start_with_separator [OF this rp]
  have "\<exists>files s1. fileList w s = Inr (files, s1) \<and> (\<forall>f \<in> set files. startsWith f ''/'')"
    by blast
  ultimately show ?thesis by blast
qed

theorem dir_mode_finds_no_images_witness:
  "\<exists>s. run (containerWorld ''/scores/demo'' [(''Score.mscx'', [1]), (''Pictures/a.png'', [2])])
          [Open, ImageFileNames] (MsczReader_path ''/scores/demo/Score.mscx'' Dir) = Inr s
     \<and> m_mode s = Dir
     \<and> (\<exists>files s1. fileList (containerWorld ''/scores/demo''
                         [(''Score.mscx'', [1]), (''Pictures/a.png'', [2])]) s = Inr (files, s1)
            \<and> (\<forall>f \<in> set files. startsWith f ''/''))
     \<and> (\<exists>m s2. meta (containerWorld ''/scores/demo''
                         [(''Score.mscx'', [1]), (''Pictures/a.png'', [2])]) s = Inr (m, s2)
            \<and> imageFilePaths m = [])"
proof -
  let ?W = "containerWorld ''/scores/demo'' [(''Score.mscx'', [1]), (''Pictures/a.png'', [2])]"
  let ?S = "MsczReader_path ''/scores/demo/Score.mscx'' Dir"
  have "\<exists>s. run ?W [Open, ImageFileNames] ?S = Inr s \<and> m_mode s = Dir"
    by (simp add: eval_defs)
  then obtain s where r: "run ?W [Open, ImageFileNames] ?S = Inr s" and d: "m_mode s = Dir"
    by blast
  have h0: "\<forall>r. \<forall>f \<in> set (fs_iterate ?W r). \<exists>rel. f = dirJoin r rel"
    by (rule containerWorld_contract)
  have h1: "\<not> endsWith (fs_absolutePath ?W ''/scores/demo/Score.mscx'') ''/''"
    by (simp add: eval_defs)
  have h2: "\<forall>m. SetMode m \<notin> set [Open, ImageFileNames]" by simp
  have h3: "\<forall>p. SetFilePath p \<in> set [Open, ImageFileNames]
              \<longrightarrow> \<not> endsWith (fs_absolutePath ?W p) ''/''" by simp
  from dir_mode_finds_no_images [OF h0 h1 h3 h2 r d] r d show ?thesis by blast
qed

text \<open>
  Claim C9 as stated fails in two ways. Under the root \<^verbatim>\<open>/\<close> the cut removes the
  separator too, and the picture is found. And a reader that resolved the pictures of an
  archive keeps them in its snapshot when \<^verbatim>\<open>setMode(Dir)\<close> puts it in mode \<^verbatim>\<open>Dir\<close>.
\<close>

theorem dir_mode_images_counterexample:
  "valueOf (meta (containerWorld ''/'' [(''Score.mscx'', [1]), (''Pictures/a.png'', [2])])
              (MsczReader_path ''/Score.mscx'' Dir))
     = Some \<lparr>mscxFileName = ''Score.mscx'', imageFilePaths = [''Pictures/a.png'']\<rparr>
   \<and> (\<exists>s. run (containerWorld ''/scores/demo'' [(''Pictures/a.png'', [2])]) [GetMeta, SetMode Dir]
              (MsczReader_device (Some 0)) = Inr s
          \<and> m_mode s = Dir
          \<and> valueOf (meta (containerWorld ''/scores/demo'' [(''Pictures/a.png'', [2])]) s)
               = Some \<lparr>mscxFileName = [], imageFilePaths = [''Pictures/a.png'']\<rparr>)"
  by (simp add: eval_defs valueOf_def)

end
